theory Spec2Isabelle
  imports Main "HOL-Library.Sublist"
begin

section \<open>JavaScript values\<close>

text \<open>
  The services exchange plain JavaScript values: primary keys are strings or numbers,
  items are objects, filters are nested objects. An object keeps its properties in
  insertion order, so it is an association list.
\<close>

datatype json =
    JUndefined
  | JNull
  | JBool bool
  | JNum int
  | JStr string
  | JArr "json list"
  | JObj "(string \<times> json) list"

type_synonym item = "(string \<times> json) list"

text \<open>JavaScript truthiness, as tested by \<^verbatim>\<open>if (!key)\<close> and \<^verbatim>\<open>data && key\<close>.\<close>

fun truthy :: "json \<Rightarrow> bool" where
  "truthy JUndefined = False"
| "truthy JNull = False"
| "truthy (JBool b) = b"
| "truthy (JNum n) = (n \<noteq> 0)"
| "truthy (JStr s) = (s \<noteq> [])"
| "truthy (JArr xs) = True"
| "truthy (JObj kvs) = True"

text \<open>Reading a property: \<^verbatim>\<open>obj[k]\<close> is \<^verbatim>\<open>undefined\<close> when the object has no such property.\<close>

definition get_prop :: "item \<Rightarrow> string \<Rightarrow> json" where
  "get_prop obj k = (case map_of obj k of None \<Rightarrow> JUndefined | Some v \<Rightarrow> v)"

text \<open>
  Writing a property, \<^verbatim>\<open>obj[k] = v\<close> or a later entry of an object literal with
  spread: an existing property keeps its position and takes the new value, a new one
  is appended. (JavaScript lists integer-like property names before the others; the
  property names here are column names and filter operators, and the properties about
  the result are stated by name, not by position.)
\<close>

fun set_prop :: "item \<Rightarrow> string \<Rightarrow> json \<Rightarrow> item" where
  "set_prop [] k v = [(k, v)]"
| "set_prop ((k', v') # kvs) k v =
     (if k' = k then (k, v) # kvs else (k', v') # set_prop kvs k v)"

text \<open>
  lodash \<^verbatim>\<open>pick(object, keys)\<close>: a new object with the properties named in \<open>keys\<close> that
  the object has, set in the order of \<open>keys\<close>. The names are plain property names, as
  column names are; lodash reads a name with a dot or a bracket, when the object has no
  property of that very name, as a path into nested objects.
\<close>

fun pick_into :: "item \<Rightarrow> item \<Rightarrow> string list \<Rightarrow> item" where
  "pick_into result obj [] = result"
| "pick_into result obj (k # ks) =
     pick_into (case map_of obj k of None \<Rightarrow> result | Some v \<Rightarrow> set_prop result k v) obj ks"

definition pick :: "item \<Rightarrow> string list \<Rightarrow> item" where
  "pick obj ks = pick_into [] obj ks"

text \<open>\<^verbatim>\<open>xs[i]\<close> on an array: \<^verbatim>\<open>undefined\<close> out of range.\<close>

definition at_index :: "json list \<Rightarrow> nat \<Rightarrow> json" where
  "at_index xs i = (if i < length xs then xs ! i else JUndefined)"

section \<open>The Oracle JSON helper: \<^verbatim>\<open>oracle_12.ts\<close>\<close>

subsection \<open>String primitives\<close>

text \<open>
  \<^verbatim>\<open>String.prototype.split\<close> with a string separator: the separator's occurrences
  are found from left to right, without overlap; the text after the last one is the last
  part. \<open>acc\<close> holds the current part, reversed.
\<close>

fun split_from :: "string \<Rightarrow> string \<Rightarrow> string \<Rightarrow> string list" where
  "split_from sep acc [] = [rev acc]"
| "split_from sep acc (c # cs) =
     (if sep \<noteq> [] \<and> prefix sep (c # cs)
      then rev acc # split_from sep [] (drop (length sep - 1) cs)
      else split_from sep (c # acc) cs)"

definition js_split :: "string \<Rightarrow> string \<Rightarrow> string list" where
  "js_split sep s = (if sep = [] then map (\<lambda>c. [c]) s else split_from sep [] s)"

text \<open>\<^verbatim>\<open>String.prototype.indexOf\<close>: the position of the first occurrence, or \<open>-1\<close>.\<close>

fun index_from :: "nat \<Rightarrow> string \<Rightarrow> string \<Rightarrow> int" where
  "index_from i sub [] = (if sub = [] then int i else - 1)"
| "index_from i sub (c # cs) =
     (if prefix sub (c # cs) then int i else index_from (Suc i) sub cs)"

definition indexOf :: "string \<Rightarrow> string \<Rightarrow> int" where
  "indexOf s sub = index_from 0 sub s"

definition startsWith :: "string \<Rightarrow> string \<Rightarrow> bool" where
  "startsWith q s = prefix s q"

subsection \<open>\<^verbatim>\<open>splitQuery\<close>\<close>

text \<open>
  The loop \<^verbatim>\<open>for (let i = 0; i < parts.length - 1; i++) parts[i] += tok\<close>: every part
  but the last gets the token back.
\<close>

fun add_back :: "string \<Rightarrow> string list \<Rightarrow> string list" where
  "add_back tok [] = []"
| "add_back tok [p] = [p]"
| "add_back tok (p # q # ps) = (p @ tok) # add_back tok (q # ps)"

definition splitQuery :: "string \<Rightarrow> string list" where
  "splitQuery jsonPath =
     (let parts = add_back ''[*]'' (js_split ''[*]'' jsonPath)
      in map (\<lambda>q. if startsWith q ''$'' then q else ''$'' @ q)
           (concat (map (\<lambda>p. add_back ''.*'' (js_split ''.*'' p)) parts)))"

subsection \<open>\<^verbatim>\<open>preProcess\<close>\<close>

record json_field_node =
  name :: string
  fieldKey :: string
  jsonPath :: string
  query :: item

text \<open>
  What \<^verbatim>\<open>preProcess\<close> does to the query builder, call by call. \<open>BuildWithJson node\<close> is
  \<^verbatim>\<open>this.buildWithJson(dbQuery, node, table, alias)\<close>, which adds the derived table of the
  node under a fresh alias and selects its aggregated column; \<open>LeftJoin node\<close> is the
  \<^verbatim>\<open>dbQuery.leftJoin(alias, ...)\<close> of that alias on the primary key; \<open>Select nodes\<close> is the one
  \<^verbatim>\<open>dbQuery.select([...])\<close> whose list holds a
  \<^verbatim>\<open>COALESCE(json_query(..), json_value(..))\<close> extraction for each node of \<open>nodes\<close>.
  \<^verbatim>\<open>buildWithJson\<close> is taken to return. It reads \<^verbatim>\<open>parts[1]\<close> of the split path, which is there
  when the path has a wildcard; for a node that needs the join for its nested filter only,
  \<^verbatim>\<open>parts[1]\<close> is \<^verbatim>\<open>undefined\<close>, and what the query builder does with it is not part of this
  model.
\<close>

datatype builder_call =
    BuildWithJson json_field_node
  | LeftJoin json_field_node
  | Select "json_field_node list"

definition selectQueries :: "json_field_node list \<Rightarrow> json_field_node list" where
  "selectQueries nodes =
     filter (\<lambda>n. indexOf (jsonPath n) ''[*]'' = - 1 \<and> indexOf (jsonPath n) ''.*'' = - 1
                 \<and> length (query n) = 0) nodes"

definition joinQueries :: "json_field_node list \<Rightarrow> json_field_node list" where
  "joinQueries nodes =
     filter (\<lambda>n. indexOf (jsonPath n) ''[*]'' > 0 \<or> indexOf (jsonPath n) ''.*'' > 0
                 \<or> length (query n) > 0) nodes"

definition preProcess :: "json_field_node list \<Rightarrow> builder_call list" where
  "preProcess nodes =
     (if length (joinQueries nodes) > 0
      then concat (map (\<lambda>node. [BuildWithJson node, LeftJoin node]) (joinQueries nodes))
      else [])
     @ (if length (selectQueries nodes) > 0 then [Select nodes] else [])"

text \<open>The nodes a list of builder calls handles by a derived table, and by direct extraction.\<close>

fun joined_nodes :: "builder_call list \<Rightarrow> json_field_node list" where
  "joined_nodes [] = []"
| "joined_nodes (LeftJoin n # cs) = n # joined_nodes cs"
| "joined_nodes (c # cs) = joined_nodes cs"

fun extracted_nodes :: "builder_call list \<Rightarrow> json_field_node list" where
  "extracted_nodes [] = []"
| "extracted_nodes (Select ns # cs) = ns @ extracted_nodes cs"
| "extracted_nodes (c # cs) = extracted_nodes cs"

definition scalar_node :: json_field_node where
  "scalar_node = \<lparr>name = ''data'', fieldKey = ''a'', jsonPath = ''$.a'', query = []\<rparr>"

definition wildcard_node :: json_field_node where
  "wildcard_node = \<lparr>name = ''data'', fieldKey = ''b'', jsonPath = ''$.b[*]'', query = []\<rparr>"

definition leading_wildcard_node :: json_field_node where
  "leading_wildcard_node = \<lparr>name = ''data'', fieldKey = ''c'', jsonPath = ''[*].c'', query = []\<rparr>"

subsection \<open>Wildcard tokens in a segment\<close>

text \<open>
  \<open>clear_of sep u\<close>: in a text that ends with \<open>u\<close>, no occurrence of \<open>sep\<close> reaches
  into that final \<open>u\<close>.
\<close>

definition clear_of :: "string \<Rightarrow> string \<Rightarrow> bool" where
  "clear_of sep u \<longleftrightarrow>
     (\<forall>x k. k < length (x @ u) \<and> prefix sep (drop k (x @ u)) \<longrightarrow> k + length sep \<le> length x)"

text \<open>
  A wildcard token in a segment: \<open>token_free tok s\<close> when \<open>tok\<close> occurs nowhere in \<open>s\<close>,
  \<open>only_at_end tok s\<close> when every occurrence of \<open>tok\<close> in \<open>s\<close> is the end of \<open>s\<close>.
\<close>

definition token_free :: "string \<Rightarrow> string \<Rightarrow> bool" where
  "token_free tok s \<longleftrightarrow> (\<forall>k. \<not> prefix tok (drop k s))"

definition only_at_end :: "string \<Rightarrow> string \<Rightarrow> bool" where
  "only_at_end tok s \<longleftrightarrow> (\<forall>k. prefix tok (drop k s) \<longrightarrow> k + length tok = length s)"

section \<open>The items service: \<^verbatim>\<open>items.ts\<close>\<close>

subsection \<open>Data\<close>

text \<open>
  \<^verbatim>\<open>Accountability\<close>: who acts. The code compares \<^verbatim>\<open>admin\<close> with \<^verbatim>\<open>true\<close> and with
  \<^verbatim>\<open>false\<close> separately, so the property has three states: \<open>None\<close> is \<^verbatim>\<open>undefined\<close>.
\<close>

record accountability =
  user :: json
  role :: json
  admin :: "bool option"
  ip :: json
  userAgent :: json

text \<open>The service object: its collection and the accountability it was built with (or \<^verbatim>\<open>null\<close>).\<close>

record service =
  collection :: string
  accountability :: "accountability option"

text \<open>A caller's input or a result that is one value or an array of values.\<close>

datatype 'a shape = Single 'a | Multi "'a list"

text \<open>\<^verbatim>\<open>Array.isArray(x) ? x : [x]\<close>\<close>

fun as_array :: "'a shape \<Rightarrow> 'a list" where
  "as_array (Multi xs) = xs"
| "as_array (Single x) = [x]"

text \<open>Truthiness of a key argument: an array is truthy, even when empty.\<close>

fun truthy_key :: "json shape \<Rightarrow> bool" where
  "truthy_key (Multi ks) = True"
| "truthy_key (Single k) = truthy k"

text \<open>
  A value handed on as the \<^verbatim>\<open>key\<close> argument of \<^verbatim>\<open>update\<close>: \<^verbatim>\<open>Array.isArray\<close> finds a key list
  when the value is an array.
\<close>

fun key_arg :: "json \<Rightarrow> json shape" where
  "key_arg (JArr ks) = Multi ks"
| "key_arg k = Single k"

text \<open>
  \<^verbatim>\<open>Query\<close>: the filter object (absent or an object), the limit, and the other
  properties, which the service only passes on.
\<close>

record read_query =
  filterq :: "item option"
  limitq :: "int option"
  otherq :: item

text \<open>What the schema inspector returns.\<close>

record column_ref =
  table :: string
  column :: string

record column_info =
  col_name :: string
  default_value :: json

datatype action = CREATE | DELETE

record activity =
  act_action :: action
  act_action_by :: json
  act_collection :: string
  act_ip :: json
  act_user_agent :: json
  act_item :: json

datatype error =
    InvalidPayloadException string
  | TypeError string
  | Collaborator string

text \<open>What \<^verbatim>\<open>readByKey\<close> returns: the records, the first record, or \<^verbatim>\<open>undefined\<close>.\<close>

datatype read_result = Records "item list" | Record item | Undefined

subsection \<open>Effects\<close>

text \<open>
  The calls that matter to the specification are recorded, in the order in which they are
  made: the calls of the authorization service, the AST builder's call with the query it
  is given, and the statements sent to storage.
\<close>

datatype event =
    GateProcessValues string string "item shape"
  | GateCheckAccess string string "json shape"
  | GateProcessAST "string option"
  | GetAST string read_query "string option"
  | InsertStmt string "item list"
  | InsertActivity "activity list"
  | UpdateStmt string item "json list"
  | DeleteStmt string "json list"

fun is_gate_call :: "event \<Rightarrow> bool" where
  "is_gate_call (GateProcessValues phase c ps) = True"
| "is_gate_call (GateCheckAccess act c ks) = True"
| "is_gate_call (GateProcessAST operation) = True"
| "is_gate_call ev = False"

fun is_get_ast :: "event \<Rightarrow> bool" where
  "is_get_ast (GetAST c q operation) = True"
| "is_get_ast ev = False"

fun is_mutation :: "event \<Rightarrow> bool" where
  "is_mutation (InsertStmt c rows) = True"
| "is_mutation (UpdateStmt c row ks) = True"
| "is_mutation (DeleteStmt c ks) = True"
| "is_mutation ev = False"

text \<open>The storage state, of any type, and the record of calls.\<close>

record 'db world =
  store :: 'db
  trace :: "event list"

text \<open>
  An asynchronous step either throws or returns, and leaves a world. A collaborator is
  a function of the storage state that throws or returns and leaves a storage state.
\<close>

type_synonym ('db, 'a) step = "'db world \<Rightarrow> (error + 'a) \<times> 'db world"

type_synonym ('db, 'a) collaborator = "'db \<Rightarrow> (error + 'a) \<times> 'db"

text \<open>
  The authorization service checks and rewrites, it writes nothing to the collection: its
  methods read the storage state and throw or return.
\<close>

type_synonym ('db, 'a) check = "'db \<Rightarrow> error + 'a"

definition ret :: "'a \<Rightarrow> ('db, 'a) step" where
  "ret a w = (Inr a, w)"

definition throw :: "error \<Rightarrow> ('db, 'a) step" where
  "throw e w = (Inl e, w)"

text \<open>\<^verbatim>\<open>const a = await m; ...\<close>: an exception of \<open>m\<close> ends the sequence.\<close>

definition bind :: "('db, 'a) step \<Rightarrow> ('a \<Rightarrow> ('db, 'b) step) \<Rightarrow> ('db, 'b) step" where
  "bind m f w = (case m w of (Inl e, w') \<Rightarrow> (Inl e, w') | (Inr a, w') \<Rightarrow> f a w')"

definition call :: "('db, 'a) collaborator \<Rightarrow> ('db, 'a) step" where
  "call f w = (case f (store w) of (r, s) \<Rightarrow> (r, w\<lparr>store := s\<rparr>))"

definition logged :: "event \<Rightarrow> ('db, 'a) collaborator \<Rightarrow> ('db, 'a) step" where
  "logged ev f w = (case f (store w) of (r, s) \<Rightarrow> (r, \<lparr>store = s, trace = trace w @ [ev]\<rparr>))"

definition asked :: "event \<Rightarrow> ('db, 'a) check \<Rightarrow> ('db, 'a) step" where
  "asked ev f w = (f (store w), w\<lparr>trace := trace w @ [ev]\<rparr>)"

text \<open>
  Modelled from the spec: the storage transaction primitive \<^verbatim>\<open>knex.transaction\<close>, which is
  not part of the sources: "scoped acquisition of a transactional handle with guaranteed
  commit-on-success / rollback-on-exception". When the body throws, the storage state is
  the one from before the body and the exception goes on to the caller. A transaction
  opened on a transaction handle is the same, inside the outer one.
\<close>

definition transaction :: "('db, 'a) step \<Rightarrow> ('db, 'a) step" where
  "transaction body w =
     (case body w of
        (Inl e, w') \<Rightarrow> (Inl e, w'\<lparr>store := store w\<rparr>)
      | (Inr a, w') \<Rightarrow> (Inr a, w'))"

subsection \<open>Collaborators\<close>

text \<open>
  The services and helpers that \<^verbatim>\<open>items.ts\<close> imports are parameters: the schema inspector,
  \<^verbatim>\<open>getDefaultValue\<close>, the AST builder and executor, the authorization service (the
  authorization gate of the specification), the payload service and the statements of the
  query builder. Where the TypeScript overloads a method for one payload and for an array
  of payloads, there is one parameter for each.
\<close>

record ('db, 'ast) deps =
  primary :: "string \<Rightarrow> string"
  columns :: "string \<Rightarrow> column_ref list"
  columnInfo :: "string \<Rightarrow> column_info list"
  getDefaultValue :: "column_info \<Rightarrow> json"
  getASTFromQuery ::
    "string \<Rightarrow> read_query \<Rightarrow> accountability option \<Rightarrow> string option \<Rightarrow> ('db, 'ast) collaborator"
  runAST :: "'ast \<Rightarrow> ('db, item list) collaborator"
  gate_processAST :: "accountability \<Rightarrow> 'ast \<Rightarrow> string option \<Rightarrow> ('db, 'ast) check"
  gate_checkAccess :: "accountability \<Rightarrow> string \<Rightarrow> string \<Rightarrow> json shape \<Rightarrow> ('db, unit) check"
  gate_processValues :: "accountability \<Rightarrow> string \<Rightarrow> string \<Rightarrow> item \<Rightarrow> ('db, item) check"
  gate_processValues_array ::
    "accountability \<Rightarrow> string \<Rightarrow> string \<Rightarrow> item list \<Rightarrow> ('db, item list) check"
  processM2O :: "string \<Rightarrow> item \<Rightarrow> ('db, item) collaborator"
  processM2O_array :: "string \<Rightarrow> item list \<Rightarrow> ('db, item list) collaborator"
  processValues :: "string \<Rightarrow> string \<Rightarrow> item \<Rightarrow> ('db, item) collaborator"
  processValues_array :: "string \<Rightarrow> string \<Rightarrow> item list \<Rightarrow> ('db, item list) collaborator"
  processO2M :: "string \<Rightarrow> item \<Rightarrow> ('db, unit) collaborator"
  processO2M_array :: "string \<Rightarrow> item list \<Rightarrow> ('db, unit) collaborator"
  insert_returning :: "string \<Rightarrow> item list \<Rightarrow> string \<Rightarrow> ('db, json list) collaborator"
  insert_activity :: "activity list \<Rightarrow> ('db, unit) collaborator"
  update_whereIn :: "string \<Rightarrow> item \<Rightarrow> string \<Rightarrow> json list \<Rightarrow> ('db, unit) collaborator"
  delete_whereIn :: "string \<Rightarrow> string \<Rightarrow> json list \<Rightarrow> ('db, unit) collaborator"
  first_row :: "string \<Rightarrow> ('db, item option) collaborator"

subsection \<open>\<^verbatim>\<open>create\<close>\<close>

definition activityRecords :: "action \<Rightarrow> service \<Rightarrow> accountability \<Rightarrow> json list \<Rightarrow> activity list" where
  "activityRecords act S a keys =
     map (\<lambda>key. \<lparr>act_action = act, act_action_by = user a, act_collection = collection S,
                  act_ip = ip a, act_user_agent = userAgent a, act_item = key\<rparr>) keys"

definition create :: "('db, 'ast) deps \<Rightarrow> service \<Rightarrow> item shape \<Rightarrow> ('db, json shape) step" where
  "create D S data =
     (let primaryKeyField = primary D (collection S);
          cols = columns D (collection S)
      in bind
        (transaction
          (bind (call (processM2O_array D (collection S) (as_array data))) (\<lambda>payloads.
           bind (call (processValues_array D (collection S) ''create''
                   (map (\<lambda>payload. pick payload (map column cols)) payloads)))
             (\<lambda>payloadsWithoutAliases.
           bind (case accountability S of
                   None \<Rightarrow> ret payloads
                 | Some a \<Rightarrow>
                     if admin a \<noteq> Some True
                     then asked (GateProcessValues ''create'' (collection S) (Multi payloads))
                            (gate_processValues_array D a ''create'' (collection S) payloads)
                     else ret payloads) (\<lambda>payloads.
           bind (logged (InsertStmt (collection S) payloadsWithoutAliases)
                   (insert_returning D (collection S) payloadsWithoutAliases primaryKeyField))
             (\<lambda>primaryKeys.
           bind (case accountability S of
                   None \<Rightarrow> ret ()
                 | Some a \<Rightarrow>
                     logged (InsertActivity (activityRecords CREATE S a primaryKeys))
                       (insert_activity D (activityRecords CREATE S a primaryKeys))) (\<lambda>_.
           bind (call (processO2M_array D (collection S)
                   (map (\<lambda>(payload, index). set_prop payload primaryKeyField (at_index primaryKeys index))
                      (zip payloads [0..<length payloads])))) (\<lambda>_.
           ret primaryKeys))))))))
        (\<lambda>savedPrimaryKeys.
           ret (case data of
                  Multi xs \<Rightarrow> Multi savedPrimaryKeys
                | Single x \<Rightarrow> Single (at_index savedPrimaryKeys 0))))"

subsection \<open>\<^verbatim>\<open>readByQuery\<close>, \<^verbatim>\<open>readByKey\<close>\<close>

definition readByQuery :: "('db, 'ast) deps \<Rightarrow> service \<Rightarrow> read_query \<Rightarrow> ('db, item list) step" where
  "readByQuery D S q =
     bind (logged (GetAST (collection S) q None)
             (getASTFromQuery D (collection S) q (accountability S) None)) (\<lambda>ast.
     bind (case accountability S of
             None \<Rightarrow> ret ast
           | Some a \<Rightarrow>
               if admin a = Some False
               then asked (GateProcessAST None) (gate_processAST D a ast None)
               else ret ast) (\<lambda>ast.
     bind (call (runAST D ast)) (\<lambda>records.
     call (processValues_array D (collection S) ''read'' records))))"

text \<open>
  The object literal of lines 138 to 146: the query's properties, with \<^verbatim>\<open>filter\<close> replaced
  by the caller's filter (or \<^verbatim>\<open>{}\<close>) in which the property named by the primary key field is
  set to \<^verbatim>\<open>{ _in: keys }\<close>.
\<close>

definition queryWithFilter :: "string \<Rightarrow> json list \<Rightarrow> read_query \<Rightarrow> read_query" where
  "queryWithFilter primaryKeyField keys q =
     q\<lparr>filterq :=
         Some (set_prop (case filterq q of None \<Rightarrow> [] | Some f \<Rightarrow> f)
                 primaryKeyField (JObj [(''_in'', JArr keys)]))\<rparr>"

definition empty_query :: read_query where
  "empty_query = \<lparr>filterq = None, limitq = None, otherq = []\<rparr>"

definition readByKey ::
  "('db, 'ast) deps \<Rightarrow> service \<Rightarrow> json shape \<Rightarrow> read_query option \<Rightarrow> string option
     \<Rightarrow> ('db, read_result) step" where
  "readByKey D S key query_arg operation_arg =
     (let q = (case query_arg of None \<Rightarrow> empty_query | Some q \<Rightarrow> q);
          operation = (case operation_arg of None \<Rightarrow> ''read'' | Some operation \<Rightarrow> operation);
          primaryKeyField = primary D (collection S);
          keys = as_array key
      in
       bind (logged (GetAST (collection S) (queryWithFilter primaryKeyField keys q) (Some operation))
               (getASTFromQuery D (collection S) (queryWithFilter primaryKeyField keys q)
                  (accountability S) (Some operation))) (\<lambda>ast.
       bind (case accountability S of
               None \<Rightarrow> ret ast
             | Some a \<Rightarrow>
                 if admin a \<noteq> Some True
                 then asked (GateProcessAST (Some operation)) (gate_processAST D a ast (Some operation))
                 else ret ast) (\<lambda>ast.
       bind (call (runAST D ast)) (\<lambda>records.
       bind (call (processValues_array D (collection S) ''read'' records)) (\<lambda>processedRecords.
       ret (case key of
              Multi ks \<Rightarrow> Records processedRecords
            | Single k \<Rightarrow>
                (case processedRecords of [] \<Rightarrow> Undefined | r # rs \<Rightarrow> Record r)))))))"

subsection \<open>\<^verbatim>\<open>update\<close>\<close>

text \<open>
  The three overloads: \<^verbatim>\<open>update(data, keys)\<close> and \<^verbatim>\<open>update(data, key)\<close> with one payload, and
  \<^verbatim>\<open>update(data[])\<close> with an array of payloads and no key.
\<close>

datatype update_args = Keyed item "json shape" | Batch "item list"

text \<open>The block under \<^verbatim>\<open>if (data && key)\<close>: one payload for one or more keys.\<close>

definition update_keyed ::
  "('db, 'ast) deps \<Rightarrow> service \<Rightarrow> item \<Rightarrow> json shape \<Rightarrow> ('db, json shape) step" where
  "update_keyed D S data key =
     (let primaryKeyField = primary D (collection S);
          cols = columns D (collection S);
          keys = as_array key
      in
       bind (case accountability S of
               None \<Rightarrow> ret data
             | Some a \<Rightarrow>
                 if admin a \<noteq> Some True
                 then bind (asked (GateCheckAccess ''update'' (collection S) (Multi keys))
                              (gate_checkAccess D a ''update'' (collection S) (Multi keys))) (\<lambda>_.
                      asked (GateProcessValues ''validate'' (collection S) (Single data))
                        (gate_processValues D a ''validate'' (collection S) data))
                 else ret data) (\<lambda>payload.
       bind (transaction
              (bind (call (processM2O D (collection S) payload)) (\<lambda>payload.
               bind (call (processValues D (collection S) ''update'' payload)) (\<lambda>payload.
               bind (logged (UpdateStmt (collection S) (pick payload (map column cols)) keys)
                       (update_whereIn D (collection S) (pick payload (map column cols))
                          primaryKeyField keys)) (\<lambda>_.
               call (processO2M D (collection S) payload)))))) (\<lambda>_.
       ret key)))"

text \<open>
  The loop of the batch mode. The service of the recursive call is built from this
  service's collection and accountability; the call \<^verbatim>\<open>itemsService.update(payload, key)\<close>
  has a truthy key, so it runs the block under \<^verbatim>\<open>if (data && key)\<close>, with the value found
  under the primary key field as its \<^verbatim>\<open>key\<close> argument.
\<close>

fun update_each ::
  "('db, 'ast) deps \<Rightarrow> service \<Rightarrow> item list \<Rightarrow> json list \<Rightarrow> ('db, json list) step" where
  "update_each D itemsService [] keys = ret keys"
| "update_each D itemsService (single # rest) keys =
     (if \<not> truthy (get_prop single (primary D (collection itemsService)))
      then throw (InvalidPayloadException ''Primary key is missing in update payload.'')
      else bind (update_keyed D itemsService single
                   (key_arg (get_prop single (primary D (collection itemsService))))) (\<lambda>_.
           update_each D itemsService rest
             (keys @ [get_prop single (primary D (collection itemsService))])))"

definition update :: "('db, 'ast) deps \<Rightarrow> service \<Rightarrow> update_args \<Rightarrow> ('db, json shape) step" where
  "update D S args =
     (case args of
        Keyed data key \<Rightarrow>
          if truthy_key key then update_keyed D S data key
          else transaction (throw (TypeError ''data is not iterable''))
      | Batch data \<Rightarrow>
          bind (transaction
                 (update_each D \<lparr>collection = collection S, accountability = accountability S\<rparr>
                    data [])) (\<lambda>keys.
          ret (Multi keys)))"

subsection \<open>\<^verbatim>\<open>delete\<close>\<close>

definition delete :: "('db, 'ast) deps \<Rightarrow> service \<Rightarrow> json shape \<Rightarrow> ('db, json shape) step" where
  "delete D S key =
     (let keys = as_array key;
          primaryKeyField = primary D (collection S)
      in
       bind (case accountability S of
               None \<Rightarrow> ret ()
             | Some a \<Rightarrow>
                 if admin a \<noteq> Some False
                 then asked (GateCheckAccess ''delete'' (collection S) key)
                        (gate_checkAccess D a ''delete'' (collection S) key)
                 else ret ()) (\<lambda>_.
       bind (transaction
              (bind (logged (DeleteStmt (collection S) keys)
                       (delete_whereIn D (collection S) primaryKeyField keys)) (\<lambda>_.
               case accountability S of
                 None \<Rightarrow> ret ()
               | Some a \<Rightarrow>
                   logged (InsertActivity (activityRecords DELETE S a keys))
                     (insert_activity D (activityRecords DELETE S a keys))))) (\<lambda>_.
       ret key)))"

subsection \<open>\<^verbatim>\<open>readSingleton\<close>, \<^verbatim>\<open>upsertSingleton\<close>\<close>

text \<open>The loop \<^verbatim>\<open>for (const column of columns) defaults[column.name] = getDefaultValue(column)\<close>.\<close>

fun defaults_of :: "(column_info \<Rightarrow> json) \<Rightarrow> item \<Rightarrow> column_info list \<Rightarrow> item" where
  "defaults_of dv defaults [] = defaults"
| "defaults_of dv defaults (c # cs) = defaults_of dv (set_prop defaults (col_name c) (dv c)) cs"

definition readSingleton :: "('db, 'ast) deps \<Rightarrow> service \<Rightarrow> read_query \<Rightarrow> ('db, item) step" where
  "readSingleton D S q =
     bind (readByQuery D S (q\<lparr>limitq := Some 1\<rparr>)) (\<lambda>records.
     case records of
       [] \<Rightarrow> ret (defaults_of (getDefaultValue D) [] (columnInfo D (collection S)))
     | record # rs \<Rightarrow> ret record)"

text \<open>
  \<^verbatim>\<open>this.knex.select(primaryKeyField).from(this.collection).limit(1).first()\<close>: the first row
  of the collection, if there is one, with the selected column only.
\<close>

definition upsertSingleton :: "('db, 'ast) deps \<Rightarrow> service \<Rightarrow> item \<Rightarrow> ('db, json shape) step" where
  "upsertSingleton D S data =
     (let primaryKeyField = primary D (collection S)
      in bind (call (first_row D (collection S))) (\<lambda>row.
         case map_option (\<lambda>r. pick r [primaryKeyField]) row of
           Some record \<Rightarrow> update D S (Keyed data (Single (get_prop record ''id'')))
         | None \<Rightarrow> create D S (Single data)))"

subsection \<open>Contracts and examples\<close>

text \<open>
  The contract of the collaborators on which the number of keys that \<^verbatim>\<open>create\<close> returns
  rests: the insert statement returns one key for each row, and the payload service returns
  as many payloads as it is given.
\<close>

definition count_preserving :: "('db, 'ast) deps \<Rightarrow> bool" where
  "count_preserving D \<longleftrightarrow>
     (\<forall>c rows f db ks db'. insert_returning D c rows f db = (Inr ks, db') \<longrightarrow> length ks = length rows)
   \<and> (\<forall>c phase ps db ps' db'.
         processValues_array D c phase ps db = (Inr ps', db') \<longrightarrow> length ps' = length ps)
   \<and> (\<forall>c ps db ps' db'. processM2O_array D c ps db = (Inr ps', db') \<longrightarrow> length ps' = length ps)"

text \<open>
  A small instance of the collaborators, for concrete runs: the storage state is the list
  of rows of the collection, the primary key field is \<^verbatim>\<open>id\<close>, the AST of a query is the
  query, the executor applies the \<^verbatim>\<open>id\<close> condition and the limit, the payload service
  changes nothing, and the authorization service allows every access and strips the field
  \<^verbatim>\<open>secret\<close> from the payloads.
\<close>

definition example_rows :: "read_query \<Rightarrow> item list \<Rightarrow> item list" where
  "example_rows q db =
     (let found = (case map_of (case filterq q of None \<Rightarrow> [] | Some f \<Rightarrow> f) ''id'' of
                     Some (JObj [(op, JArr ks)]) \<Rightarrow> filter (\<lambda>r. get_prop r ''id'' \<in> set ks) db
                   | _ \<Rightarrow> db)
      in case limitq q of None \<Rightarrow> found | Some n \<Rightarrow> take (nat n) found)"

definition without_secret :: "item \<Rightarrow> item" where
  "without_secret p = filter (\<lambda>kv. fst kv \<noteq> ''secret'') p"

definition example_deps :: "(item list, read_query) deps" where
  "example_deps = \<lparr>
     primary = (\<lambda>c. ''id''),
     columns = (\<lambda>c. [\<lparr>table = c, column = ''id''\<rparr>, \<lparr>table = c, column = ''title''\<rparr>,
                      \<lparr>table = c, column = ''secret''\<rparr>]),
     columnInfo = (\<lambda>c. [\<lparr>col_name = ''id'', default_value = JNull\<rparr>,
                         \<lparr>col_name = ''title'', default_value = JStr ''untitled''\<rparr>]),
     getDefaultValue = default_value,
     getASTFromQuery = (\<lambda>c q a operation db. (Inr q, db)),
     runAST = (\<lambda>q db. (Inr (example_rows q db), db)),
     gate_processAST = (\<lambda>a ast operation db. Inr ast),
     gate_checkAccess = (\<lambda>a act c ks db. Inr ()),
     gate_processValues = (\<lambda>a phase c p db. Inr (without_secret p)),
     gate_processValues_array = (\<lambda>a phase c ps db. Inr (map without_secret ps)),
     processM2O = (\<lambda>c p db. (Inr p, db)),
     processM2O_array = (\<lambda>c ps db. (Inr ps, db)),
     processValues = (\<lambda>c phase p db. (Inr p, db)),
     processValues_array = (\<lambda>c phase ps db. (Inr ps, db)),
     processO2M = (\<lambda>c p db. (Inr (), db)),
     processO2M_array = (\<lambda>c ps db. (Inr (), db)),
     insert_returning = (\<lambda>c rows f db. (Inr (map (\<lambda>r. get_prop r f) rows), db @ rows)),
     insert_activity = (\<lambda>recs db. (Inr (), db)),
     update_whereIn = (\<lambda>c p f ks db.
        (Inr (), map (\<lambda>r. if get_prop r f \<in> set ks
                           then fold (\<lambda>kv r'. set_prop r' (fst kv) (snd kv)) p r else r) db)),
     delete_whereIn = (\<lambda>c f ks db. (Inr (), filter (\<lambda>r. get_prop r f \<notin> set ks) db)),
     first_row = (\<lambda>c db. (Inr (case db of [] \<Rightarrow> None | r # rs \<Rightarrow> Some r), db))\<rparr>"

text \<open>The same, for a collection whose primary key field is \<^verbatim>\<open>uuid\<close>.\<close>

definition example_deps_uuid :: "(item list, read_query) deps" where
  "example_deps_uuid = example_deps\<lparr>primary := (\<lambda>c. ''uuid'')\<rparr>"


definition editor :: accountability where
  "editor = \<lparr>user = JNum 7, role = JStr ''editor'', admin = Some False, ip = JStr ''10.0.0.1'',
             userAgent = JStr ''curl''\<rparr>"

definition articles :: service where
  "articles = \<lparr>collection = ''articles'', accountability = Some editor\<rparr>"

definition article1 :: item where
  "article1 = [(''id'', JNum 1), (''title'', JStr ''t'')]"

definition secret_article :: item where
  "secret_article = [(''id'', JNum 2), (''title'', JStr ''s''), (''secret'', JStr ''x'')]"

definition one_uuid_article :: "item list world" where
  "one_uuid_article = \<lparr>store = [[(''uuid'', JStr ''u1''), (''title'', JStr ''t'')]], trace = []\<rparr>"

text \<open>A caller's query with a condition on \<^verbatim>\<open>title\<close> and a condition on the primary key field.\<close>

definition id5_query :: read_query where
  "id5_query =
     \<lparr>filterq = Some [(''title'', JObj [(''_eq'', JStr ''t'')]), (''id'', JObj [(''_eq'', JNum 5)])],
      limitq = None, otherq = []\<rparr>"


definition one_article :: "item list world" where
  "one_article = \<lparr>store = [article1], trace = []\<rparr>"

definition no_article :: "item list world" where
  "no_article = \<lparr>store = [], trace = []\<rparr>"

section \<open>Properties of the JSON helper\<close>

lemma split_from_ne: "split_from sep acc s \<noteq> []"
  by (induction sep acc s rule: split_from.induct) auto

lemma add_back_ne: "xs \<noteq> [] \<Longrightarrow> add_back tok xs \<noteq> []"
  by (induction tok xs rule: add_back.induct) auto

lemma last_add_back: "last (add_back tok xs) = last xs"
  by (induction tok xs rule: add_back.induct) (auto simp: add_back_ne)

lemma butlast_add_back: "x \<in> set (butlast (add_back tok xs)) \<Longrightarrow> suffix tok x"
  by (induction tok xs rule: add_back.induct) (auto simp: suffix_def split: if_splits)

lemma concat_add_back_split:
  "sep \<noteq> [] \<Longrightarrow> concat (add_back sep (split_from sep acc s)) = rev acc @ s"
proof (induction sep acc s rule: split_from.induct)
  case (1 sep acc)
  then show ?case by simp
next
  case (2 sep acc c cs)
  show ?case
  proof (cases "prefix sep (c # cs)")
    case True
    obtain y ys where ys: "split_from sep [] (drop (length sep - 1) cs) = y # ys"
      using split_from_ne by (cases "split_from sep [] (drop (length sep - 1) cs)") auto
    from True obtain r where r: "c # cs = sep @ r" by (auto simp: prefix_def)
    with 2(3) have dr: "drop (length sep - 1) cs = r"
      by (cases sep) auto
    have step: "split_from sep acc (c # cs) = rev acc # y # ys"
      using True 2(3) ys by simp
    have "concat (add_back sep (y # ys)) = r"
      using 2(1) True 2(3) ys dr by simp
    then have "concat (add_back sep (split_from sep acc (c # cs))) = rev acc @ sep @ r"
      unfolding step by simp
    then show ?thesis by (simp only: r [symmetric])
  next
    case False
    with 2 show ?thesis by simp
  qed
qed

lemma split_from_no_match:
  "\<forall>k<length s. \<not> prefix sep (drop k s) \<Longrightarrow> split_from sep acc s = [rev acc @ s]"
proof (induction s arbitrary: acc)
  case Nil
  then show ?case by simp
next
  case (Cons c cs)
  from Cons.prems have h0: "\<not> prefix sep (c # cs)" by (auto dest: spec [of _ 0])
  have "\<forall>k<length cs. \<not> prefix sep (drop k cs)"
  proof (intro allI impI)
    fix k assume "k < length cs"
    then have "Suc k < length (c # cs)" by simp
    with Cons.prems have "\<not> prefix sep (drop (Suc k) (c # cs))" by blast
    then show "\<not> prefix sep (drop k cs)" by simp
  qed
  from Cons.IH [OF this] h0 show ?case by simp
qed

lemma last_split_from_append:
  assumes "clear_of sep u" and "sep \<noteq> []"
  shows "suffix u (last (split_from sep acc (x @ u)))"
proof (induction "length x" arbitrary: x acc rule: less_induct)
  case less
  show ?case
  proof (cases x)
    case Nil
    have "\<forall>k<length u. \<not> prefix sep (drop k u)"
    proof (intro allI impI notI)
      fix k assume "k < length u" "prefix sep (drop k u)"
      then have "k < length ([] @ u) \<and> prefix sep (drop k ([] @ u))" by simp
      with assms(1) have "k + length sep \<le> length ([]::string)"
        unfolding clear_of_def by blast
      with assms(2) show False by simp
    qed
    then have "split_from sep acc u = [rev acc @ u]" by (rule split_from_no_match)
    with Nil show ?thesis by (simp add: suffix_def)
  next
    case (Cons c cs)
    show ?thesis
    proof (cases "prefix sep (c # cs @ u)")
      case True
      have "0 < length (x @ u) \<and> prefix sep (drop 0 (x @ u))" using Cons True by simp
      with assms(1) have "0 + length sep \<le> length x"
        unfolding clear_of_def by blast
      then have len: "length sep \<le> length x" by simp
      define x' where "x' = drop (length sep - 1) cs"
      have dr: "drop (length sep - 1) (cs @ u) = x' @ u"
        using len Cons by (simp add: x'_def)
      have "length x' < length x" using Cons by (simp add: x'_def)
      then have IH: "suffix u (last (split_from sep [] (x' @ u)))" by (rule less)
      have "split_from sep acc (x @ u) = rev acc # split_from sep [] (x' @ u)"
        using True assms(2) Cons dr by simp
      with IH show ?thesis by (simp add: split_from_ne)
    next
      case False
      have "length cs < length x" using Cons by simp
      then have IH: "suffix u (last (split_from sep (c # acc) (cs @ u)))" by (rule less)
      with False Cons show ?thesis by simp
    qed
  qed
qed

lemma clear_dot_star: "clear_of ''.*'' ''[*]''"
  unfolding clear_of_def
proof (intro allI impI, elim conjE)
  fix x :: string and k
  assume k: "k < length (x @ ''[*]'')" and p: "prefix ''.*'' (drop k (x @ ''[*]''))"
  show "k + length ''.*'' \<le> length x"
  proof (rule ccontr)
    assume "\<not> k + length ''.*'' \<le> length x"
    then have "length x < k + 2" by simp
    then consider "k + 1 = length x" | "k = length x" | "k = length x + 1" | "k = length x + 2"
      using k by force
    then show False
    proof cases
      case 1
      then have "drop k (x @ ''[*]'') = drop k x @ ''[*]''" by simp
      moreover have "length (drop k x) = 1" using 1 by simp
      then obtain c where "drop k x = [c]"
        by (cases "drop k x") auto
      ultimately show False using p by simp
    qed (use p in auto)
  qed
qed

lemma js_split_ne: "sep \<noteq> [] \<Longrightarrow> js_split sep s \<noteq> []"
  by (simp add: js_split_def split_from_ne)

lemma concat_add_back_js_split: "sep \<noteq> [] \<Longrightarrow> concat (add_back sep (js_split sep s)) = s"
  by (simp add: js_split_def concat_add_back_split)

lemma last_segment_keeps_array_wildcard:
  "suffix ''[*]'' p \<Longrightarrow> suffix ''[*]'' (last (add_back ''.*'' (js_split ''.*'' p)))"
proof -
  assume "suffix ''[*]'' p"
  then obtain x where "p = x @ ''[*]''" by (auto simp: suffix_def)
  then show ?thesis
    using last_split_from_append [OF clear_dot_star, of "[]" x]
    by (simp add: last_add_back js_split_def)
qed

lemma butlast_concat_map:
  assumes "\<forall>p\<in>set ps. f p \<noteq> [] \<and> (\<forall>x\<in>set (butlast (f p)). P x)"
    and "\<forall>p\<in>set (butlast ps). P (last (f p))"
  shows "\<forall>x\<in>set (butlast (concat (map f ps))). P x"
  using assms
proof (induction ps)
  case Nil
  then show ?case by simp
next
  case (Cons a ps)
  show ?case
  proof (cases "ps = []")
    case True
    with Cons.prems show ?thesis by simp
  next
    case False
    then obtain b where "b \<in> set ps" by (cases ps) auto
    with Cons.prems(1) have ne: "concat (map f ps) \<noteq> []" by auto
    have IH: "\<forall>x\<in>set (butlast (concat (map f ps))). P x"
      using Cons.IH Cons.prems False by simp
    have fa: "\<forall>x\<in>set (f a). P x"
    proof
      fix x assume x: "x \<in> set (f a)"
      from Cons.prems(1) have "f a \<noteq> []" by simp
      then have "f a = butlast (f a) @ [last (f a)]" by simp
      with x have "x \<in> set (butlast (f a)) \<or> x = last (f a)"
        by (metis Un_iff empty_iff empty_set set_ConsD set_append)
      moreover have "P (last (f a))" using Cons.prems(2) False by simp
      ultimately show "P x" using Cons.prems(1) by auto
    qed
    show ?thesis using ne IH fa by (auto simp: butlast_append)
  qed
qed

lemma concat_flat_map: "concat (concat (map f ps)) = concat (map (\<lambda>p. concat (f p)) ps)"
  by (induction ps) auto

lemma token_free_only_at_end: "token_free tok s \<Longrightarrow> only_at_end tok s"
  by (simp add: token_free_def only_at_end_def)

lemma prefix_drop_append: "prefix tok (drop k x) \<Longrightarrow> tok \<noteq> [] \<Longrightarrow> prefix tok (drop k (x @ y))"
proof -
  assume p: "prefix tok (drop k x)" and ne: "tok \<noteq> []"
  then have "k < length x" by (cases "k < length x") auto
  then have "drop k (x @ y) = drop k x @ y" by simp
  with p show ?thesis by (simp add: prefix_prefix)
qed

lemma split_from_pieces_free:
  "sep \<noteq> [] \<Longrightarrow> \<forall>k<length acc. \<not> prefix sep (drop k (rev acc @ s))
     \<Longrightarrow> x \<in> set (split_from sep acc s) \<Longrightarrow> token_free sep x"
proof (induction sep acc s rule: split_from.induct)
  case (1 sep acc)
  have "\<not> prefix sep (drop k (rev acc))" for k
  proof (cases "k < length acc")
    case True
    with 1 show ?thesis by simp
  next
    case False
    with 1(1) show ?thesis by simp
  qed
  with 1 show ?case by (simp add: token_free_def)
next
  case (2 sep acc c cs)
  note ne = \<open>sep \<noteq> []\<close>
  show ?case
  proof (cases "prefix sep (c # cs)")
    case True
    with 2 have "x = rev acc \<or> x \<in> set (split_from sep [] (drop (length sep - 1) cs))"
      by simp
    then show ?thesis
    proof
      assume x: "x = rev acc"
      have "\<not> prefix sep (drop k (rev acc))" for k
      proof
        assume p: "prefix sep (drop k (rev acc))"
        with ne have "k < length acc" by (cases "k < length acc") auto
        moreover from p ne have "prefix sep (drop k (rev acc @ c # cs))"
          by (rule prefix_drop_append)
        ultimately show False using 2 by blast
      qed
      with x show ?thesis by (simp add: token_free_def)
    next
      assume "x \<in> set (split_from sep [] (drop (length sep - 1) cs))"
      with 2(1) True ne show ?thesis by simp
    qed
  next
    case False
    have inv: "\<forall>k<length (c # acc). \<not> prefix sep (drop k (rev (c # acc) @ cs))"
    proof (intro allI impI)
      fix k assume "k < length (c # acc)"
      then consider "k < length acc" | "k = length acc" by force
      then show "\<not> prefix sep (drop k (rev (c # acc) @ cs))"
      proof cases
        case 1
        with 2 show ?thesis by simp
      next
        case 2
        with False show ?thesis by simp
      qed
    qed
    from 2 False have "x \<in> set (split_from sep (c # acc) cs)" by simp
    with 2(2) False inv ne show ?thesis by simp
  qed
qed

lemma js_split_pieces_free: "sep \<noteq> [] \<Longrightarrow> x \<in> set (js_split sep s) \<Longrightarrow> token_free sep x"
  using split_from_pieces_free [of sep "[]" s x] by (simp add: js_split_def)

lemma array_wildcard_unbordered: "token_free ''[*]'' x \<Longrightarrow> only_at_end ''[*]'' (x @ ''[*]'')"
  unfolding only_at_end_def
proof (intro allI impI)
  fix k
  assume free: "token_free ''[*]'' x" and p: "prefix ''[*]'' (drop k (x @ ''[*]''))"
  from p have "length ''[*]'' \<le> length (drop k (x @ ''[*]''))" by (rule prefix_length_le)
  then have k: "k \<le> length x" by simp
  define d where "d = drop k x"
  from k have dr: "drop k (x @ ''[*]'') = d @ ''[*]''" by (simp add: d_def)
  from free have nd: "\<not> prefix ''[*]'' d" by (simp add: token_free_def d_def)
  have "d = []"
  proof (cases d)
    case Nil
    then show ?thesis .
  next
    case (Cons c d1)
    note c = this
    show ?thesis
    proof (cases d1)
      case Nil
      with p dr c show ?thesis by simp
    next
      case (Cons e d2)
      note e = this
      show ?thesis
      proof (cases d2)
        case Nil
        with p dr c e show ?thesis by simp
      next
        case (Cons f d3)
        with p dr c e nd show ?thesis by simp
      qed
    qed
  qed
  with k have "k = length x" by (simp add: d_def)
  then show "k + length ''[*]'' = length (x @ ''[*]'')" by simp
qed

lemma object_wildcard_unbordered: "token_free ''.*'' x \<Longrightarrow> only_at_end ''.*'' (x @ ''.*'')"
  unfolding only_at_end_def
proof (intro allI impI)
  fix k
  assume free: "token_free ''.*'' x" and p: "prefix ''.*'' (drop k (x @ ''.*''))"
  from p have "length ''.*'' \<le> length (drop k (x @ ''.*''))" by (rule prefix_length_le)
  then have k: "k \<le> length x" by simp
  define d where "d = drop k x"
  from k have dr: "drop k (x @ ''.*'') = d @ ''.*''" by (simp add: d_def)
  from free have nd: "\<not> prefix ''.*'' d" by (simp add: token_free_def d_def)
  have "d = []"
  proof (cases d)
    case Nil
    then show ?thesis .
  next
    case (Cons c d1)
    note c = this
    show ?thesis
    proof (cases d1)
      case Nil
      with p dr c show ?thesis by simp
    next
      case (Cons e d2)
      with p dr c nd show ?thesis by simp
    qed
  qed
  with k have "k = length x" by (simp add: d_def)
  then show "k + length ''.*'' = length (x @ ''.*'')" by simp
qed

lemma add_back_cases:
  "p \<in> set (add_back tok xs) \<Longrightarrow> p \<in> set xs \<or> (\<exists>x\<in>set xs. p = x @ tok)"
  by (induction tok xs rule: add_back.induct) auto

lemma infix_only_at_end:
  assumes q: "only_at_end tok q" and cat: "concat xs = q" and s: "s \<in> set xs" and ne: "tok \<noteq> []"
  shows "only_at_end tok s"
  unfolding only_at_end_def
proof (intro allI impI)
  fix k assume p: "prefix tok (drop k s)"
  from s obtain ys zs where xs: "xs = ys @ s # zs" by (auto dest: split_list)
  define pre where "pre = concat ys"
  define post where "post = concat zs"
  from cat xs have qq: "q = pre @ s @ post" by (simp add: pre_def post_def)
  from p have len: "length tok \<le> length (drop k s)" by (rule prefix_length_le)
  with ne have ks: "k < length s" by (cases "k < length s") auto
  then have "drop (length pre + k) q = drop k s @ post" by (simp add: qq)
  with p have "prefix tok (drop (length pre + k) q)" by (simp add: prefix_prefix)
  with q have "length pre + k + length tok = length q" by (simp add: only_at_end_def)
  then have "k + length tok = length s + length post" by (simp add: qq)
  moreover from len ks have "k + length tok \<le> length s" by simp
  ultimately show "k + length tok = length s" by simp
qed

lemma infix_token_free:
  assumes q: "token_free tok q" and cat: "concat xs = q" and s: "s \<in> set xs" and ne: "tok \<noteq> []"
  shows "token_free tok s"
  unfolding token_free_def
proof (intro allI notI)
  fix k assume p: "prefix tok (drop k s)"
  from s obtain ys zs where xs: "xs = ys @ s # zs" by (auto dest: split_list)
  from cat xs have qq: "q = concat ys @ s @ concat zs" by simp
  from p have len: "length tok \<le> length (drop k s)" by (rule prefix_length_le)
  with ne have ks: "k < length s" by (cases "k < length s") auto
  then have "drop (length (concat ys) + k) q = drop k s @ concat zs" by (simp add: qq)
  with p have "prefix tok (drop (length (concat ys) + k) q)" by (simp add: prefix_prefix)
  with q show False by (simp add: token_free_def)
qed

lemma last_concat_map:
  "ps \<noteq> [] \<Longrightarrow> \<forall>p\<in>set ps. f p \<noteq> [] \<Longrightarrow> last (concat (map f ps)) = last (f (last ps))"
proof (induction ps)
  case Nil
  then show ?case by simp
next
  case (Cons a ps)
  show ?case
  proof (cases "ps = []")
    case True
    then show ?thesis by simp
  next
    case False
    then obtain b where "b \<in> set ps" by (cases ps) auto
    with Cons.prems(2) have "concat (map f ps) \<noteq> []" by auto
    with Cons False show ?thesis by simp
  qed
qed

lemma add_back_only_at_end:
  assumes s: "s \<in> set (add_back tok (js_split tok p))"
    and unb: "\<And>x. token_free tok x \<Longrightarrow> only_at_end tok (x @ tok)" and ne: "tok \<noteq> []"
  shows "only_at_end tok s"
proof -
  from add_back_cases [OF s] show ?thesis
  proof
    assume "s \<in> set (js_split tok p)"
    with ne have "token_free tok s" by (rule js_split_pieces_free)
    then show ?thesis by (rule token_free_only_at_end)
  next
    assume "\<exists>x\<in>set (js_split tok p). s = x @ tok"
    then obtain x where x: "x \<in> set (js_split tok p)" and sx: "s = x @ tok" by blast
    from ne x have "token_free tok x" by (rule js_split_pieces_free)
    then show ?thesis unfolding sx by (rule unb)
  qed
qed

section \<open>Claims about the JSON helper\<close>

text \<open>
  C9. For every JSON path, \<^verbatim>\<open>splitQuery\<close> cuts the path after each \<^verbatim>\<open>[*]\<close> and \<^verbatim>\<open>.*\<close>
  wildcard token, the token staying at the end of the segment it closes, and gives every
  segment the root marker. The result is a list \<open>raw\<close> of segments with \<^verbatim>\<open>$\<close> put before each
  one that does not start with it, where: the segments of \<open>raw\<close> put together are the path;
  every segment but the last ends with a wildcard token; a wildcard token occurs in a
  segment only as its end; the last segment holds no wildcard token; and every returned
  segment starts with \<^verbatim>\<open>$\<close>.
\<close>

theorem splitQuery_segments:
  "\<exists>raw. splitQuery path = map (\<lambda>q. if startsWith q ''$'' then q else ''$'' @ q) raw
     \<and> concat raw = path
     \<and> raw \<noteq> []
     \<and> (\<forall>s\<in>set (butlast raw). suffix ''[*]'' s \<or> suffix ''.*'' s)
     \<and> (\<forall>s\<in>set raw. only_at_end ''[*]'' s \<and> only_at_end ''.*'' s)
     \<and> token_free ''[*]'' (last raw) \<and> token_free ''.*'' (last raw)
     \<and> (\<forall>q\<in>set (splitQuery path). startsWith q ''$'')"
proof -
  define parts where "parts = add_back ''[*]'' (js_split ''[*]'' path)"
  define segs where "segs = (\<lambda>p. add_back ''.*'' (js_split ''.*'' p))"
  define raw where "raw = concat (map segs parts)"
  have sq: "splitQuery path = map (\<lambda>q. if startsWith q ''$'' then q else ''$'' @ q) raw"
    by (simp add: splitQuery_def raw_def segs_def parts_def)
  have segs_cat: "concat (segs p) = p" for p
    by (simp add: segs_def concat_add_back_js_split)
  have segs_ne: "segs p \<noteq> []" for p
    by (simp add: segs_def add_back_ne js_split_ne)
  have parts_ne: "parts \<noteq> []"
    by (simp add: parts_def add_back_ne js_split_ne)
  have "concat raw = concat (map (\<lambda>p. concat (segs p)) parts)"
    by (simp only: raw_def concat_flat_map)
  also have "map (\<lambda>p. concat (segs p)) parts = parts"
    by (simp add: segs_cat)
  also have "concat parts = path"
    by (simp add: parts_def concat_add_back_js_split)
  finally have whole: "concat raw = path" .
  have raw_ne: "raw \<noteq> []"
  proof -
    from parts_ne obtain p where "p \<in> set parts" by (cases parts) auto
    with segs_ne show ?thesis by (auto simp: raw_def)
  qed
  have inner: "\<forall>p\<in>set parts. segs p \<noteq> []
      \<and> (\<forall>x\<in>set (butlast (segs p)). suffix ''[*]'' x \<or> suffix ''.*'' x)"
    by (auto simp: segs_def add_back_ne js_split_ne dest: butlast_add_back)
  have outer: "\<forall>p\<in>set (butlast parts). suffix ''[*]'' (last (segs p)) \<or> suffix ''.*'' (last (segs p))"
  proof
    fix p assume "p \<in> set (butlast parts)"
    then have "suffix ''[*]'' p" unfolding parts_def by (rule butlast_add_back)
    then show "suffix ''[*]'' (last (segs p)) \<or> suffix ''.*'' (last (segs p))"
      unfolding segs_def by (simp add: last_segment_keeps_array_wildcard)
  qed
  have ends: "\<forall>s\<in>set (butlast raw). suffix ''[*]'' s \<or> suffix ''.*'' s"
    unfolding raw_def using inner outer by (rule butlast_concat_map)
  have tokens: "\<forall>s\<in>set raw. only_at_end ''[*]'' s \<and> only_at_end ''.*'' s"
  proof
    fix s assume "s \<in> set raw"
    then obtain p where p: "p \<in> set parts" and s: "s \<in> set (segs p)"
      by (auto simp: raw_def)
    have "only_at_end ''[*]'' p"
      using p unfolding parts_def
      by (rule add_back_only_at_end) (simp_all add: array_wildcard_unbordered)
    then have a: "only_at_end ''[*]'' s"
      using segs_cat s by (rule infix_only_at_end) simp
    have b: "only_at_end ''.*'' s"
      using s unfolding segs_def
      by (rule add_back_only_at_end) (simp_all add: object_wildcard_unbordered)
    from a b show "only_at_end ''[*]'' s \<and> only_at_end ''.*'' s" ..
  qed
  have lr: "last raw = last (js_split ''.*'' (last parts))"
    unfolding raw_def using parts_ne segs_ne
    by (simp add: last_concat_map) (simp add: segs_def last_add_back)
  have lp: "last parts = last (js_split ''[*]'' path)"
    by (simp add: parts_def last_add_back)
  have in2: "last raw \<in> set (js_split ''.*'' (last parts))"
    unfolding lr by (simp add: js_split_ne)
  have in1: "last parts \<in> set (js_split ''[*]'' path)"
    unfolding lp by (simp add: js_split_ne)
  have free2: "token_free ''.*'' (last raw)"
    by (rule js_split_pieces_free [OF _ in2]) simp
  have fp: "token_free ''[*]'' (last parts)"
    by (rule js_split_pieces_free [OF _ in1]) simp
  have "last raw = last (segs (last parts))"
    unfolding lr by (simp add: segs_def last_add_back)
  then have mem: "last raw \<in> set (segs (last parts))"
    using segs_ne [of "last parts"] by simp
  have free1: "token_free ''[*]'' (last raw)"
    by (rule infix_token_free [OF fp segs_cat mem]) simp
  have root: "\<forall>q\<in>set (splitQuery path). startsWith q ''$''"
    unfolding sq by (auto simp: startsWith_def)
  show ?thesis
    by (intro exI [of _ raw] conjI) (fact sq whole raw_ne ends tokens free1 free2 root)+
qed

theorem splitQuery_segments_witness:
  "splitQuery ''$.a[*].b.*.c'' = [''$.a[*]'', ''$.b.*'', ''$.c'']
   \<and> (\<exists>raw. splitQuery ''$.a[*].b.*.c'' = map (\<lambda>q. if startsWith q ''$'' then q else ''$'' @ q) raw
       \<and> concat raw = ''$.a[*].b.*.c''
       \<and> raw \<noteq> []
       \<and> (\<forall>s\<in>set (butlast raw). suffix ''[*]'' s \<or> suffix ''.*'' s)
       \<and> (\<forall>s\<in>set raw. only_at_end ''[*]'' s \<and> only_at_end ''.*'' s)
       \<and> token_free ''[*]'' (last raw) \<and> token_free ''.*'' (last raw)
       \<and> (\<forall>q\<in>set (splitQuery ''$.a[*].b.*.c''). startsWith q ''$''))"
proof
  show "splitQuery ''$.a[*].b.*.c'' = [''$.a[*]'', ''$.b.*'', ''$.c'']"
    by (simp add: splitQuery_def js_split_def startsWith_def)
  show "\<exists>raw. splitQuery ''$.a[*].b.*.c'' = map (\<lambda>q. if startsWith q ''$'' then q else ''$'' @ q) raw
       \<and> concat raw = ''$.a[*].b.*.c''
       \<and> raw \<noteq> []
       \<and> (\<forall>s\<in>set (butlast raw). suffix ''[*]'' s \<or> suffix ''.*'' s)
       \<and> (\<forall>s\<in>set raw. only_at_end ''[*]'' s \<and> only_at_end ''.*'' s)
       \<and> token_free ''[*]'' (last raw) \<and> token_free ''.*'' (last raw)
       \<and> (\<forall>q\<in>set (splitQuery ''$.a[*].b.*.c''). startsWith q ''$'')"
    by (rule splitQuery_segments)
qed

text \<open>
  C3. With a node that needs no join (\<^verbatim>\<open>$.a\<close>) and a node with an array wildcard
  (\<^verbatim>\<open>$.b[*]\<close>), \<^verbatim>\<open>preProcess\<close> joins the derived table of the wildcard node and then
  selects a direct extraction for both nodes, so the wildcard node is handled by both
  strategies; and a node whose path starts with the wildcard (\<^verbatim>\<open>[*].c\<close>, position 0) is
  in neither of the two filtered lists and gets no builder call at all.
\<close>

theorem preProcess_node_twice_or_dropped:
  "preProcess [scalar_node, wildcard_node]
     = [BuildWithJson wildcard_node, LeftJoin wildcard_node, Select [scalar_node, wildcard_node]]
   \<and> joined_nodes (preProcess [scalar_node, wildcard_node]) = [wildcard_node]
   \<and> extracted_nodes (preProcess [scalar_node, wildcard_node]) = [scalar_node, wildcard_node]
   \<and> preProcess [leading_wildcard_node] = []"
  by (simp add: preProcess_def joinQueries_def selectQueries_def indexOf_def
        scalar_node_def wildcard_node_def leading_wildcard_node_def)

section \<open>Properties of the items service\<close>

lemmas step_defs = bind_def ret_def throw_def call_def logged_def asked_def transaction_def

lemmas example_defs = example_deps_def editor_def articles_def article1_def
  one_article_def no_article_def example_rows_def without_secret_def

lemmas eval_defs = Let_def step_defs example_defs pick_def get_prop_def at_index_def
  activityRecords_def

subsection \<open>Objects\<close>

lemma map_of_set_prop: "map_of (set_prop obj k v) k' = (if k' = k then Some v else map_of obj k')"
  by (induction obj k v rule: set_prop.induct) auto

lemma keys_set_prop: "fst ` set (set_prop obj k v) = insert k (fst ` set obj)"
  by (induction obj k v rule: set_prop.induct) auto

lemma get_prop_pick_other: "k \<noteq> f \<Longrightarrow> get_prop (pick row [f]) k = JUndefined"
  by (simp add: pick_def get_prop_def split: option.splits)

lemma find_app:
  "find P (xs @ ys) = (case find P xs of None \<Rightarrow> find P ys | Some x \<Rightarrow> Some x)"
  by (induction xs) auto

lemma map_of_defaults_of:
  "map_of (defaults_of dv defaults cs) n =
     (case find (\<lambda>c. col_name c = n) (rev cs) of
        None \<Rightarrow> map_of defaults n
      | Some c \<Rightarrow> Some (dv c))"
proof (induction cs arbitrary: defaults)
  case Nil
  then show ?case by simp
next
  case (Cons c cs)
  show ?case
    by (simp add: Cons.IH find_app map_of_set_prop split: option.splits)
qed

lemma keys_defaults_of:
  "fst ` set (defaults_of dv defaults cs) = fst ` set defaults \<union> col_name ` set cs"
  by (induction cs arbitrary: defaults) (auto simp: keys_set_prop)

subsection \<open>The batch loop\<close>





subsection \<open>What the operations return\<close>



text \<open>
  A single payload with a falsy key (\<^verbatim>\<open>0\<close>, the empty string, \<^verbatim>\<open>undefined\<close>) is not updated:
  the test \<^verbatim>\<open>data && key\<close> fails, the batch loop iterates over a payload that is no array,
  and the call throws.
\<close>

lemma update_falsy_key_throws:
  "\<not> truthy k \<Longrightarrow>
     update D S (Keyed data (Single k)) w = (Inl (TypeError ''data is not iterable''), w)"
  by (simp add: update_def transaction_def throw_def)









lemma count_preserving_example: "count_preserving example_deps"
  by (auto simp: count_preserving_def example_deps_def)

subsection \<open>Authorization before the statements\<close>

text \<open>
  With an accountability whose \<^verbatim>\<open>admin\<close> is not \<^verbatim>\<open>true\<close>, the first recorded call of
  \<^verbatim>\<open>update\<close> with a key is \<^verbatim>\<open>checkAccess\<close>, and the first recorded call of \<^verbatim>\<open>create\<close>, if
  there is one, is the authorization service's \<^verbatim>\<open>processValues\<close>: both come before the
  statement.
\<close>

lemma update_keyed_gate_first:
  "accountability S = Some a \<Longrightarrow> admin a \<noteq> Some True \<Longrightarrow>
     \<exists>rest. trace (snd (update_keyed D S data key w))
       = trace w @ GateCheckAccess ''update'' (collection S) (Multi (as_array key)) # rest"
  by (auto simp: update_keyed_def Let_def step_defs split: prod.splits sum.splits)

lemma create_gate_first:
  "accountability S = Some a \<Longrightarrow> admin a \<noteq> Some True \<Longrightarrow>
     \<exists>added. trace (snd (create D S data w)) = trace w @ added
       \<and> (case added of [] \<Rightarrow> True | ev # evs \<Rightarrow> is_gate_call ev)"
  by (auto simp: create_def Let_def step_defs split: prod.splits sum.splits)

text \<open>
  With an accountability whose \<^verbatim>\<open>admin\<close> is \<^verbatim>\<open>false\<close>, \<^verbatim>\<open>delete\<close> records no call of the
  authorization service,
  whatever the collaborators do, and sends the delete statement.
\<close>

lemma delete_gate_calls_admin_false:
  "filter is_gate_call
      (trace (snd (delete D \<lparr>collection = c, accountability = Some (a\<lparr>admin := Some False\<rparr>)\<rparr> key w)))
     = filter is_gate_call (trace w)
   \<and> DeleteStmt c (as_array key)
       \<in> set (trace (snd (delete D \<lparr>collection = c, accountability = Some (a\<lparr>admin := Some False\<rparr>)\<rparr> key w)))"
  by (auto simp: delete_def Let_def step_defs split: prod.splits sum.splits)

text \<open>
  The rows that \<^verbatim>\<open>create\<close> hands to the insert statement do not depend on what the
  authorization service returns: with two authorization services that return different
  payloads, the statements sent are the same.
\<close>

lemma create_insert_ignores_gate_result:
  "filter is_mutation
     (trace (snd (create (D\<lparr>gate_processValues_array := (\<lambda>a phase c ps db. Inr (g ps))\<rparr>) S data w)))
   = filter is_mutation
     (trace (snd (create (D\<lparr>gate_processValues_array := (\<lambda>a phase c ps db. Inr (h ps))\<rparr>) S data w)))"
  by (auto simp: create_def Let_def step_defs split: prod.splits sum.splits option.splits)

section \<open>Claims about the items service\<close>

text \<open>
  C1. \<^verbatim>\<open>delete\<close> called with an accountability whose \<^verbatim>\<open>admin\<close> is \<^verbatim>\<open>false\<close>: the guard
  \<^verbatim>\<open>admin !== false\<close> is false, \<^verbatim>\<open>checkAccess\<close> is not called, and the delete statement runs:
  the recorded calls are the delete statement and the activity insert, and the row is gone.
\<close>

theorem delete_admin_false_skips_gate:
  "delete example_deps articles (Single (JNum 1)) one_article
     = (Inr (Single (JNum 1)),
        \<lparr>store = [],
         trace = [DeleteStmt ''articles'' [JNum 1],
                  InsertActivity
                    [\<lparr>act_action = DELETE, act_action_by = JNum 7, act_collection = ''articles'',
                      act_ip = JStr ''10.0.0.1'', act_user_agent = JStr ''curl'',
                      act_item = JNum 1\<rparr>]]\<rparr>)"
  by (simp add: delete_def eval_defs)

text \<open>
  C2. \<^verbatim>\<open>create\<close> called by a non-admin with a payload that has the field \<^verbatim>\<open>secret\<close>, with
  an authorization service that strips this field: its \<^verbatim>\<open>processValues\<close> is called and
  returns the payload without the field, but the row handed to the insert statement, and
  stored, is the payload with the field.
\<close>

theorem create_inserts_ungated_rows:
  "gate_processValues_array example_deps editor ''create'' ''articles'' [secret_article] []
     = Inr [[(''id'', JNum 2), (''title'', JStr ''s'')]]
   \<and> create example_deps articles (Single secret_article) no_article
     = (Inr (Single (JNum 2)),
        \<lparr>store = [[(''id'', JNum 2), (''title'', JStr ''s''), (''secret'', JStr ''x'')]],
         trace = [GateProcessValues ''create'' ''articles'' (Multi [secret_article]),
                  InsertStmt ''articles''
                    [[(''id'', JNum 2), (''title'', JStr ''s''), (''secret'', JStr ''x'')]],
                  InsertActivity
                    [\<lparr>act_action = CREATE, act_action_by = JNum 7, act_collection = ''articles'',
                      act_ip = JStr ''10.0.0.1'', act_user_agent = JStr ''curl'',
                      act_item = JNum 2\<rparr>]]\<rparr>)"
  by (simp add: create_def eval_defs secret_article_def)







text \<open>
  C6. \<^verbatim>\<open>readByKey\<close> builds the AST of the query constrained to the requested keys, has the
  authorization service rewrite it where that applies, executes it and applies the
  read-phase value processing to the records found. When these four steps throw nothing,
  the call returns and throws nothing: with an array of keys, the array of the processed
  records, whatever its length; with one key, the first processed record, and
  \<^verbatim>\<open>undefined\<close> when there is none. Whenever the call returns, its result is obtained so.
\<close>

theorem readByKey_returns_found:
  "(getASTFromQuery D (collection S)
        (queryWithFilter (primary D (collection S)) (as_array key)
           (case query_arg of None \<Rightarrow> empty_query | Some q \<Rightarrow> q))
        (accountability S) (Some operation) (store w) = (Inr ast, s_ast)
      \<and> (case accountability S of
            None \<Rightarrow> ast' = ast
          | Some a \<Rightarrow>
              if admin a \<noteq> Some True then gate_processAST D a ast (Some operation) s_ast = Inr ast'
              else ast' = ast)
      \<and> runAST D ast' s_ast = (Inr records, s_run)
      \<and> processValues_array D (collection S) ''read'' records s_run = (Inr processedRecords, s_values)
      \<and> operation = (case operation_arg of None \<Rightarrow> ''read'' | Some x \<Rightarrow> x)
    \<longrightarrow> fst (readByKey D S key query_arg operation_arg w)
          = Inr (case key of
                   Multi ks \<Rightarrow> Records processedRecords
                 | Single k \<Rightarrow> (case processedRecords of [] \<Rightarrow> Undefined | r # rs \<Rightarrow> Record r))
        \<and> store (snd (readByKey D S key query_arg operation_arg w)) = s_values)
   \<and> (fst (readByKey D S key query_arg operation_arg w) = Inr res \<longrightarrow>
        (\<exists>ast s_ast ast' records s_run processedRecords s_values.
           getASTFromQuery D (collection S)
               (queryWithFilter (primary D (collection S)) (as_array key)
                  (case query_arg of None \<Rightarrow> empty_query | Some q \<Rightarrow> q))
               (accountability S) (Some (case operation_arg of None \<Rightarrow> ''read'' | Some x \<Rightarrow> x))
               (store w) = (Inr ast, s_ast)
           \<and> (case accountability S of
                 None \<Rightarrow> ast' = ast
               | Some a \<Rightarrow>
                   if admin a \<noteq> Some True
                   then gate_processAST D a ast
                          (Some (case operation_arg of None \<Rightarrow> ''read'' | Some x \<Rightarrow> x)) s_ast = Inr ast'
                   else ast' = ast)
           \<and> runAST D ast' s_ast = (Inr records, s_run)
           \<and> processValues_array D (collection S) ''read'' records s_run = (Inr processedRecords, s_values)
           \<and> res = (case key of
                      Multi ks \<Rightarrow> Records processedRecords
                    | Single k \<Rightarrow>
                        (case processedRecords of [] \<Rightarrow> Undefined | r # rs \<Rightarrow> Record r))))"
proof (intro conjI impI)
  assume h: "getASTFromQuery D (collection S)
        (queryWithFilter (primary D (collection S)) (as_array key)
           (case query_arg of None \<Rightarrow> empty_query | Some q \<Rightarrow> q))
        (accountability S) (Some operation) (store w) = (Inr ast, s_ast)
      \<and> (case accountability S of
            None \<Rightarrow> ast' = ast
          | Some a \<Rightarrow>
              if admin a \<noteq> Some True then gate_processAST D a ast (Some operation) s_ast = Inr ast'
              else ast' = ast)
      \<and> runAST D ast' s_ast = (Inr records, s_run)
      \<and> processValues_array D (collection S) ''read'' records s_run = (Inr processedRecords, s_values)
      \<and> operation = (case operation_arg of None \<Rightarrow> ''read'' | Some x \<Rightarrow> x)"
  then show "fst (readByKey D S key query_arg operation_arg w)
          = Inr (case key of
                   Multi ks \<Rightarrow> Records processedRecords
                 | Single k \<Rightarrow> (case processedRecords of [] \<Rightarrow> Undefined | r # rs \<Rightarrow> Record r))"
    by (cases "accountability S")
       (auto simp: readByKey_def Let_def step_defs split: if_splits)
  from h show "store (snd (readByKey D S key query_arg operation_arg w)) = s_values"
    by (cases "accountability S")
       (auto simp: readByKey_def Let_def step_defs split: if_splits)
next
  assume "fst (readByKey D S key query_arg operation_arg w) = Inr res"
  then show "\<exists>ast s_ast ast' records s_run processedRecords s_values.
           getASTFromQuery D (collection S)
               (queryWithFilter (primary D (collection S)) (as_array key)
                  (case query_arg of None \<Rightarrow> empty_query | Some q \<Rightarrow> q))
               (accountability S) (Some (case operation_arg of None \<Rightarrow> ''read'' | Some x \<Rightarrow> x))
               (store w) = (Inr ast, s_ast)
           \<and> (case accountability S of
                 None \<Rightarrow> ast' = ast
               | Some a \<Rightarrow>
                   if admin a \<noteq> Some True
                   then gate_processAST D a ast
                          (Some (case operation_arg of None \<Rightarrow> ''read'' | Some x \<Rightarrow> x)) s_ast = Inr ast'
                   else ast' = ast)
           \<and> runAST D ast' s_ast = (Inr records, s_run)
           \<and> processValues_array D (collection S) ''read'' records s_run = (Inr processedRecords, s_values)
           \<and> res = (case key of
                      Multi ks \<Rightarrow> Records processedRecords
                    | Single k \<Rightarrow>
                        (case processedRecords of [] \<Rightarrow> Undefined | r # rs \<Rightarrow> Record r))"
    by (cases "accountability S")
       (auto simp: readByKey_def Let_def step_defs split: prod.splits sum.splits if_splits)
qed


theorem readByKey_returns_found_witness:
  "fst (readByKey example_deps articles (Single (JNum 2)) None None one_article) = Inr Undefined
   \<and> store (snd (readByKey example_deps articles (Single (JNum 2)) None None one_article))
       = [article1]
   \<and> fst (readByKey example_deps articles (Multi [JNum 1, JNum 2]) None None one_article)
       = Inr (Records [article1])
   \<and> fst (readByKey example_deps articles (Single (JNum 1)) None None one_article)
       = Inr (Record article1)"
proof -
  note absent = readByKey_returns_found [where D = example_deps and S = articles
      and w = one_article and key = "Single (JNum 2)" and query_arg = None
      and operation_arg = None and operation = "''read''"
      and ast = "\<lparr>filterq = Some [(''id'', JObj [(''_in'', JArr [JNum 2])])], limitq = None,
                   otherq = []\<rparr>"
      and ast' = "\<lparr>filterq = Some [(''id'', JObj [(''_in'', JArr [JNum 2])])], limitq = None,
                    otherq = []\<rparr>"
      and s_ast = "[article1]" and records = "[]" and s_run = "[article1]"
      and processedRecords = "[]" and s_values = "[article1]", THEN conjunct1]
  note both = readByKey_returns_found [where D = example_deps and S = articles
      and w = one_article and key = "Multi [JNum 1, JNum 2]" and query_arg = None
      and operation_arg = None and operation = "''read''"
      and ast = "\<lparr>filterq = Some [(''id'', JObj [(''_in'', JArr [JNum 1, JNum 2])])],
                   limitq = None, otherq = []\<rparr>"
      and ast' = "\<lparr>filterq = Some [(''id'', JObj [(''_in'', JArr [JNum 1, JNum 2])])],
                    limitq = None, otherq = []\<rparr>"
      and s_ast = "[article1]" and records = "[article1]" and s_run = "[article1]"
      and processedRecords = "[article1]" and s_values = "[article1]", THEN conjunct1]
  note found = readByKey_returns_found [where D = example_deps and S = articles
      and w = one_article and key = "Single (JNum 1)" and query_arg = None
      and operation_arg = None and operation = "''read''"
      and ast = "\<lparr>filterq = Some [(''id'', JObj [(''_in'', JArr [JNum 1])])], limitq = None,
                   otherq = []\<rparr>"
      and ast' = "\<lparr>filterq = Some [(''id'', JObj [(''_in'', JArr [JNum 1])])], limitq = None,
                    otherq = []\<rparr>"
      and s_ast = "[article1]" and records = "[article1]" and s_run = "[article1]"
      and processedRecords = "[article1]" and s_values = "[article1]", THEN conjunct1]
  have a: "fst (readByKey example_deps articles (Single (JNum 2)) None None one_article) = Inr Undefined
     \<and> store (snd (readByKey example_deps articles (Single (JNum 2)) None None one_article))
         = [article1]"
    using absent by (simp add: example_defs queryWithFilter_def empty_query_def get_prop_def)
  have b: "fst (readByKey example_deps articles (Multi [JNum 1, JNum 2]) None None one_article)
       = Inr (Records [article1])"
    using both by (simp add: example_defs queryWithFilter_def empty_query_def get_prop_def)
  have c: "fst (readByKey example_deps articles (Single (JNum 1)) None None one_article)
       = Inr (Record article1)"
    using found by (simp add: example_defs queryWithFilter_def empty_query_def get_prop_def)
  from a b c show ?thesis by simp
qed

text \<open>
  C7, as the code has it. \<^verbatim>\<open>readByKey\<close> hands the AST builder the caller's query with the
  filter replaced: in the new filter the primary key field is constrained to the requested
  keys, every condition of the caller's filter on another field is kept, and the rest of the
  query is unchanged. A condition that the caller placed on the primary key field itself is
  not kept: the constraint to the requested keys takes its place.
\<close>

theorem readByKey_filter_merge:
  "(\<exists>rest. trace (snd (readByKey D S key (Some q) operation w))
        = trace w @ GetAST (collection S)
                      (queryWithFilter (primary D (collection S)) (as_array key) q)
                      (Some (case operation of None \<Rightarrow> ''read'' | Some x \<Rightarrow> x)) # rest)
   \<and> (\<exists>f'. filterq (queryWithFilter pk keys q) = Some f'
        \<and> map_of f' pk = Some (JObj [(''_in'', JArr keys)])
        \<and> (\<forall>field. field \<noteq> pk \<longrightarrow>
              map_of f' field = map_of (case filterq q of None \<Rightarrow> [] | Some f \<Rightarrow> f) field))
   \<and> limitq (queryWithFilter pk keys q) = limitq q
   \<and> otherq (queryWithFilter pk keys q) = otherq q"
proof (intro conjI)
  show "\<exists>rest. trace (snd (readByKey D S key (Some q) operation w))
        = trace w @ GetAST (collection S)
                      (queryWithFilter (primary D (collection S)) (as_array key) q)
                      (Some (case operation of None \<Rightarrow> ''read'' | Some x \<Rightarrow> x)) # rest"
    by (auto simp: readByKey_def Let_def step_defs split: prod.splits sum.splits option.splits)
next
  show "\<exists>f'. filterq (queryWithFilter pk keys q) = Some f'
        \<and> map_of f' pk = Some (JObj [(''_in'', JArr keys)])
        \<and> (\<forall>field. field \<noteq> pk \<longrightarrow>
              map_of f' field = map_of (case filterq q of None \<Rightarrow> [] | Some f \<Rightarrow> f) field)"
    by (simp add: queryWithFilter_def map_of_set_prop)
qed (simp_all add: queryWithFilter_def)

theorem readByKey_filter_merge_witness:
  "filterq (queryWithFilter ''id'' [JNum 1] id5_query)
     = Some [(''title'', JObj [(''_eq'', JStr ''t'')]), (''id'', JObj [(''_in'', JArr [JNum 1])])]
   \<and> (\<exists>f'. filterq (queryWithFilter ''id'' [JNum 1] id5_query) = Some f'
         \<and> map_of f' ''title'' = Some (JObj [(''_eq'', JStr ''t'')]))"
proof -
  have "''title'' \<noteq> ''id''" by simp
  with readByKey_filter_merge [of example_deps articles "Single (JNum 1)" id5_query None one_article
      "''id''" "[JNum 1]"]
  show ?thesis by (simp add: queryWithFilter_def id5_query_def)
qed

text \<open>
  C7, as stated, fails. The caller asks for key 1 with a filter that holds the condition
  \<^verbatim>\<open>id: { _eq: 5 }\<close> on the primary key field. The query handed to the AST builder has
  \<^verbatim>\<open>id: { _in: [1] }\<close> under \<^verbatim>\<open>id\<close> and the caller's condition nowhere, and the row with
  \<^verbatim>\<open>id\<close> 1 is returned.
\<close>

theorem readByKey_replaces_primary_key_condition:
  "readByKey example_deps articles (Single (JNum 1)) (Some id5_query) None one_article
     = (Inr (Record article1),
        \<lparr>store = [article1],
         trace = [GetAST ''articles''
                    \<lparr>filterq = Some [(''title'', JObj [(''_eq'', JStr ''t'')]),
                                     (''id'', JObj [(''_in'', JArr [JNum 1])])],
                     limitq = None, otherq = []\<rparr>
                    (Some ''read''),
                  GateProcessAST (Some ''read'')]\<rparr>)
   \<and> get_prop (case filterq id5_query of None \<Rightarrow> [] | Some f \<Rightarrow> f) ''id''
       = JObj [(''_eq'', JNum 5)]
   \<and> get_prop (case filterq (queryWithFilter ''id'' [JNum 1] id5_query) of
                 None \<Rightarrow> [] | Some f \<Rightarrow> f) ''id''
       = JObj [(''_in'', JArr [JNum 1])]"
  by (simp add: readByKey_def queryWithFilter_def eval_defs id5_query_def)

text \<open>
  C8. \<^verbatim>\<open>readSingleton\<close> builds one AST, from the caller's query with the limit set to 1.
  When that query yields no record, the result is an item whose properties are the column
  names of \<^verbatim>\<open>columnInfo\<close>, each with the default value of the column of that name (the last
  one, should a name occur twice); when it yields records, the result is the first one.
\<close>

theorem readSingleton_defaults:
  "(\<exists>rest. trace (snd (readSingleton D S q w))
        = trace w @ GetAST (collection S) (q\<lparr>limitq := Some 1\<rparr>) None # rest
        \<and> filter is_get_ast rest = [])
   \<and> (readByQuery D S (q\<lparr>limitq := Some 1\<rparr>) w = (Inr [], w') \<longrightarrow>
        (\<exists>defaults. readSingleton D S q w = (Inr defaults, w')
           \<and> fst ` set defaults = col_name ` set (columnInfo D (collection S))
           \<and> (\<forall>n. map_of defaults n
                 = map_option (getDefaultValue D)
                     (find (\<lambda>c. col_name c = n) (rev (columnInfo D (collection S)))))))
   \<and> (readByQuery D S (q\<lparr>limitq := Some 1\<rparr>) w = (Inr (r # rs), w') \<longrightarrow>
        readSingleton D S q w = (Inr r, w'))"
proof (intro conjI impI)
  show "\<exists>rest. trace (snd (readSingleton D S q w))
        = trace w @ GetAST (collection S) (q\<lparr>limitq := Some 1\<rparr>) None # rest
        \<and> filter is_get_ast rest = []"
    by (auto simp: readSingleton_def readByQuery_def step_defs
        split: prod.splits sum.splits option.splits list.splits)
next
  assume "readByQuery D S (q\<lparr>limitq := Some 1\<rparr>) w = (Inr [], w')"
  then have "readSingleton D S q w
      = (Inr (defaults_of (getDefaultValue D) [] (columnInfo D (collection S))), w')"
    by (simp add: readSingleton_def bind_def ret_def)
  then show "\<exists>defaults. readSingleton D S q w = (Inr defaults, w')
           \<and> fst ` set defaults = col_name ` set (columnInfo D (collection S))
           \<and> (\<forall>n. map_of defaults n
                 = map_option (getDefaultValue D)
                     (find (\<lambda>c. col_name c = n) (rev (columnInfo D (collection S)))))"
    by (simp add: keys_defaults_of map_of_defaults_of split: option.splits)
next
  assume "readByQuery D S (q\<lparr>limitq := Some 1\<rparr>) w = (Inr (r # rs), w')"
  then show "readSingleton D S q w = (Inr r, w')"
    by (simp add: readSingleton_def bind_def ret_def)
qed

theorem readSingleton_defaults_witness:
  "readSingleton example_deps articles empty_query no_article
     = (Inr [(''id'', JNull), (''title'', JStr ''untitled'')],
        \<lparr>store = [],
         trace = [GetAST ''articles'' \<lparr>filterq = None, limitq = Some 1, otherq = []\<rparr> None,
                  GateProcessAST None]\<rparr>)"
proof -
  have e: "readByQuery example_deps articles (empty_query\<lparr>limitq := Some 1\<rparr>) no_article
      = (Inr [],
         \<lparr>store = [],
          trace = [GetAST ''articles'' \<lparr>filterq = None, limitq = Some 1, otherq = []\<rparr> None,
                   GateProcessAST None]\<rparr>)"
    by (simp add: readByQuery_def empty_query_def eval_defs)
  from readSingleton_defaults [of example_deps articles empty_query no_article] e
  obtain defaults where
    d: "readSingleton example_deps articles empty_query no_article
          = (Inr defaults,
             \<lparr>store = [],
              trace = [GetAST ''articles'' \<lparr>filterq = None, limitq = Some 1, otherq = []\<rparr> None,
                       GateProcessAST None]\<rparr>)"
    by blast
  moreover have "fst (readSingleton example_deps articles empty_query no_article)
      = Inr [(''id'', JNull), (''title'', JStr ''untitled'')]"
    by (simp add: readSingleton_def readByQuery_def empty_query_def eval_defs)
  ultimately show ?thesis by simp
qed

text \<open>
  C10. When the probe of \<^verbatim>\<open>upsertSingleton\<close> finds a row, the update is called with the
  \<^verbatim>\<open>id\<close> property of the probed record, which holds the primary key column only; so when
  the primary key field is not named \<^verbatim>\<open>id\<close>, the update is called with the key
  \<^verbatim>\<open>undefined\<close>.
\<close>

theorem upsertSingleton_keys_on_id:
  "first_row D (collection S) (store w) = (Inr (Some row), s') \<longrightarrow>
     upsertSingleton D S data w
       = update D S (Keyed data (Single (get_prop (pick row [primary D (collection S)]) ''id'')))
           (w\<lparr>store := s'\<rparr>)
     \<and> (primary D (collection S) \<noteq> ''id'' \<longrightarrow>
          upsertSingleton D S data w = update D S (Keyed data (Single JUndefined)) (w\<lparr>store := s'\<rparr>))"
proof (intro impI)
  assume "first_row D (collection S) (store w) = (Inr (Some row), s')"
  then have eq: "upsertSingleton D S data w
       = update D S (Keyed data (Single (get_prop (pick row [primary D (collection S)]) ''id'')))
           (w\<lparr>store := s'\<rparr>)"
    by (simp add: upsertSingleton_def Let_def bind_def call_def)
  show "upsertSingleton D S data w
       = update D S (Keyed data (Single (get_prop (pick row [primary D (collection S)]) ''id'')))
           (w\<lparr>store := s'\<rparr>)
     \<and> (primary D (collection S) \<noteq> ''id'' \<longrightarrow>
          upsertSingleton D S data w = update D S (Keyed data (Single JUndefined)) (w\<lparr>store := s'\<rparr>))"
    using eq get_prop_pick_other [of "''id''" "primary D (collection S)" row] by auto
qed

theorem upsertSingleton_keys_on_id_witness:
  "upsertSingleton example_deps_uuid articles [(''title'', JStr ''s'')] one_uuid_article
     = update example_deps_uuid articles (Keyed [(''title'', JStr ''s'')] (Single JUndefined))
         one_uuid_article
   \<and> fst (upsertSingleton example_deps_uuid articles [(''title'', JStr ''s'')] one_uuid_article)
       = Inl (TypeError ''data is not iterable'')"
proof -
  have p: "first_row example_deps_uuid (collection articles) (store one_uuid_article)
      = (Inr (Some [(''uuid'', JStr ''u1''), (''title'', JStr ''t'')]),
         [[(''uuid'', JStr ''u1''), (''title'', JStr ''t'')]])"
    by (simp add: example_defs example_deps_uuid_def one_uuid_article_def)
  have n: "primary example_deps_uuid (collection articles) \<noteq> ''id''"
    by (simp add: example_defs example_deps_uuid_def)
  have w: "one_uuid_article\<lparr>store := [[(''uuid'', JStr ''u1''), (''title'', JStr ''t'')]]\<rparr>
      = one_uuid_article"
    by (simp add: one_uuid_article_def)
  from upsertSingleton_keys_on_id [of example_deps_uuid articles one_uuid_article
      "[(''uuid'', JStr ''u1''), (''title'', JStr ''t'')]"
      "[[(''uuid'', JStr ''u1''), (''title'', JStr ''t'')]]" "[(''title'', JStr ''s'')]"] p n w
  have "upsertSingleton example_deps_uuid articles [(''title'', JStr ''s'')] one_uuid_article
     = update example_deps_uuid articles (Keyed [(''title'', JStr ''s'')] (Single JUndefined))
         one_uuid_article"
    unfolding w by blast
  moreover have "fst (update example_deps_uuid articles
      (Keyed [(''title'', JStr ''s'')] (Single JUndefined)) one_uuid_article)
      = Inl (TypeError ''data is not iterable'')"
    by (simp add: update_def step_defs)
  ultimately show ?thesis by simp
qed


end
